theory Spec2Isabelle
  imports Main "HOL-Library.Sublist"
begin

section \<open>Chain of Responsibility: \<^verbatim>\<open>ChainOfResponsibility.py\<close>\<close>

subsection \<open>Infrastructure interfaces\<close>

datatype LogLevel = DEBUG | INFO | WARN | ERROR

text \<open>
  The exceptions the handlers tell apart with \<^verbatim>\<open>isinstance\<close>. Each value carries the
  text that \<^verbatim>\<open>str(ex)\<close> yields inside the f-strings; a \<^verbatim>\<open>ModuleNotFoundError\<close> also
  carries its \<^verbatim>\<open>name\<close> attribute, which may be \<^verbatim>\<open>None\<close>. Every exception that is
  an instance of none of the three classes is an \<open>OtherException\<close>.
\<close>

datatype BaseException =
    ModuleNotFoundError "string option" string
  | KeyboardInterrupt string
  | NotImplementedError string
  | OtherException string

fun str :: "BaseException \<Rightarrow> string" where
  "str (ModuleNotFoundError n m) = m"
| "str (KeyboardInterrupt m) = m"
| "str (NotImplementedError m) = m"
| "str (OtherException m) = m"

text \<open>
  \<^verbatim>\<open>ILogger\<close>, \<^verbatim>\<open>IPluginLoader\<close> and \<^verbatim>\<open>IGracefulShutdown\<close> are abstract: an
  implementation acts on the world outside the handlers. The world is a type parameter
  \<open>'w\<close> and an implementation of an interface is the function its single method
  computes on it.
\<close>

type_synonym 'w ILogger = "string \<Rightarrow> LogLevel \<Rightarrow> 'w \<Rightarrow> 'w"
type_synonym 'w IPluginLoader = "string \<Rightarrow> 'w \<Rightarrow> bool \<times> 'w"
type_synonym 'w IGracefulShutdown = "'w \<Rightarrow> 'w"

text \<open>The three implementations of the source: two do nothing, the loader answers True.\<close>

definition Logger_log :: "'w ILogger" where
  "Logger_log message log_level w = w"

definition PluginLoader_try_load_from_plugin :: "'w IPluginLoader" where
  "PluginLoader_try_load_from_plugin module_name w = (True, w)"

definition GracefulShutdown_shutdown :: "'w IGracefulShutdown" where
  "GracefulShutdown_shutdown w = w"

subsection \<open>Handling context and the four handlers\<close>

record ExceptionHandlingContext =
  exception :: BaseException
  is_handled :: bool

type_synonym 'w IExceptionHandler =
  "ExceptionHandlingContext \<Rightarrow> 'w \<Rightarrow> ExceptionHandlingContext \<times> 'w"

fun ModuleNotFoundErrorHandler ::
  "'w IPluginLoader \<Rightarrow> 'w ILogger \<Rightarrow> 'w IExceptionHandler" where
  "ModuleNotFoundErrorHandler plugin_loader logger c w =
     (case exception c of
        ModuleNotFoundError None m \<Rightarrow>
          (c, logger (''ModuleNotFoundError without module name: '' @ str (exception c)) ERROR w)
      | ModuleNotFoundError (Some n) m \<Rightarrow>
          (let (loaded, w') = plugin_loader n w in (c\<lparr>is_handled := loaded\<rparr>, w'))
      | _ \<Rightarrow> (c, w))"

fun KeyboardInterruptHandler :: "'w IGracefulShutdown \<Rightarrow> 'w IExceptionHandler" where
  "KeyboardInterruptHandler graceful_shutdown c w =
     (case exception c of
        KeyboardInterrupt m \<Rightarrow> (c\<lparr>is_handled := True\<rparr>, graceful_shutdown w)
      | _ \<Rightarrow> (c, w))"

fun NotImplementedErrorHandler ::
  "'w IGracefulShutdown \<Rightarrow> 'w ILogger \<Rightarrow> 'w IExceptionHandler" where
  "NotImplementedErrorHandler graceful_shutdown logger c w =
     (case exception c of
        NotImplementedError m \<Rightarrow>
          (c\<lparr>is_handled := True\<rparr>,
           graceful_shutdown (logger (''NotImplemented error: '' @ str (exception c)) ERROR w))
      | _ \<Rightarrow> (c, w))"

fun UnexpectedExceptionHandler ::
  "'w IGracefulShutdown \<Rightarrow> 'w ILogger \<Rightarrow> 'w IExceptionHandler" where
  "UnexpectedExceptionHandler graceful_shutdown logger c w =
     (c\<lparr>is_handled := True\<rparr>,
      graceful_shutdown (logger (''Unexpected exception: '' @ str (exception c)) ERROR w))"

subsection \<open>The chain\<close>

text \<open>
  The state of one \<^verbatim>\<open>handle_exception\<close> call: the context object, the world, and two
  observation fields that the source does not have and that no handler can touch:
  \<open>invoked\<close> lists the positions of the handlers whose \<^verbatim>\<open>handle\<close> was called, in
  call order, and \<open>fallback_calls\<close> counts the executions of the \<^verbatim>\<open>else\<close> branch of
  the loop. The \<^verbatim>\<open>shutdown\<close> of a handler and the \<^verbatim>\<open>shutdown\<close> of the \<^verbatim>\<open>else\<close>
  branch may be one and the same object (they are in \<^verbatim>\<open>good_main\<close>), so the world alone
  cannot tell them apart.
\<close>

record 'w ChainRun =
  handling_context :: ExceptionHandlingContext
  world :: 'w
  invoked :: "nat list"
  fallback_calls :: nat

text \<open>
  The \<^verbatim>\<open>for\<close> loop over the handlers from position \<open>i\<close> on. The boolean is True when
  the loop was left by \<^verbatim>\<open>break\<close> and False when it ran to exhaustion.
\<close>

fun for_handlers ::
  "nat \<Rightarrow> 'w IExceptionHandler list \<Rightarrow> 'w ChainRun \<Rightarrow> bool \<times> 'w ChainRun" where
  "for_handlers i [] r = (False, r)"
| "for_handlers i (handler # rest) r =
     (let (c, w) = handler (handling_context r) (world r);
          r' = r\<lparr>handling_context := c, world := w, invoked := invoked r @ [i]\<rparr>
      in if is_handled c then (True, r') else for_handlers (Suc i) rest r')"

definition handle_exception ::
  "'w IGracefulShutdown \<Rightarrow> 'w IExceptionHandler list \<Rightarrow> BaseException \<Rightarrow> 'w \<Rightarrow> 'w ChainRun" where
  "handle_exception graceful_shutdown exception_handlers ex w =
     (let c0 = \<lparr>exception = ex, is_handled = False\<rparr>;
          (broke, r) = for_handlers 0 exception_handlers
                         \<lparr>handling_context = c0, world = w, invoked = [], fallback_calls = 0\<rparr>
      in if broke then r
         else r\<lparr>world := graceful_shutdown (world r),
                fallback_calls := Suc (fallback_calls r)\<rparr>)"

text \<open>The chain that \<^verbatim>\<open>good_main\<close> configures.\<close>

definition good_main_handlers ::
  "'w IPluginLoader \<Rightarrow> 'w IGracefulShutdown \<Rightarrow> 'w ILogger \<Rightarrow> 'w IExceptionHandler list" where
  "good_main_handlers plugin_loader graceful_shutdown logger =
     [ModuleNotFoundErrorHandler plugin_loader logger,
      KeyboardInterruptHandler graceful_shutdown,
      NotImplementedErrorHandler graceful_shutdown logger,
      UnexpectedExceptionHandler graceful_shutdown logger]"

subsection \<open>Observing a run\<close>

text \<open>
  Two functions used to state properties of a run. \<open>run_handlers\<close> calls every handler of
  a sequence in turn, threading the context and the world, with no test in between;
  \<open>all_leave_unhandled\<close> says that in such a run every handler returns with the flag
  false.
\<close>

fun run_handlers ::
  "'w IExceptionHandler list \<Rightarrow> ExceptionHandlingContext \<Rightarrow> 'w \<Rightarrow> ExceptionHandlingContext \<times> 'w" where
  "run_handlers [] c w = (c, w)"
| "run_handlers (handler # rest) c w = (let (c', w') = handler c w in run_handlers rest c' w')"

fun all_leave_unhandled ::
  "'w IExceptionHandler list \<Rightarrow> ExceptionHandlingContext \<Rightarrow> 'w \<Rightarrow> bool" where
  "all_leave_unhandled [] c w = True"
| "all_leave_unhandled (handler # rest) c w =
     (let (c', w') = handler c w in \<not> is_handled c' \<and> all_leave_unhandled rest c' w')"

text \<open>
  Implementations of the three interfaces that record their calls: the log lines written,
  the number of \<^verbatim>\<open>shutdown\<close> calls and the module names passed to the plugin loader,
  which answers True as \<^verbatim>\<open>PluginLoader\<close> does.
\<close>

record Recorded =
  log_entries :: "(string \<times> LogLevel) list"
  shutdown_calls :: nat
  plugin_loads :: "string list"

definition recording_log :: "Recorded ILogger" where
  "recording_log message log_level w = w\<lparr>log_entries := log_entries w @ [(message, log_level)]\<rparr>"

definition recording_shutdown :: "Recorded IGracefulShutdown" where
  "recording_shutdown w = w\<lparr>shutdown_calls := Suc (shutdown_calls w)\<rparr>"

definition recording_try_load_from_plugin :: "Recorded IPluginLoader" where
  "recording_try_load_from_plugin module_name w =
     (True, w\<lparr>plugin_loads := plugin_loads w @ [module_name]\<rparr>)"

definition nothing_recorded :: Recorded where
  "nothing_recorded = \<lparr>log_entries = [], shutdown_calls = 0, plugin_loads = []\<rparr>"

section \<open>Python objects shared by the two pipeline modules\<close>

text \<open>
  Objects live in a store: a list of objects, an object's address being its position.
  Creating an object appends it. A Python reference is never dangling; the model answers
  \<open>NoSuchObject\<close> for an address outside the store, which no run from a constructor
  reaches. \<open>Raised\<close> is an exception raised by the callable of a
  \<^verbatim>\<open>FunctionTransformer\<close>.
\<close>

type_synonym addr = nat

datatype error = TypeError | IndexError | AttributeError | RecursionError
  | Raised string | NoSuchObject

definition lookup :: "'a list \<Rightarrow> addr \<Rightarrow> 'a option" where
  "lookup h a = (if a < length h then Some (h ! a) else None)"

text \<open>
  The values that flow through a pipeline: a dataset, or the \<^verbatim>\<open>...\<close> object that the
  stub of \<^verbatim>\<open>ColumnsSelectorTransformer\<close> puts in its place. A callable is a function
  on them that may raise; it does not touch the store.
\<close>

datatype 'd val = Dataset 'd | Ellipsis

type_synonym 'd callable = "'d val \<Rightarrow> error + 'd val"

section \<open>Aggregating pipeline: \<^verbatim>\<open>Composite_pipelining.py\<close>\<close>

datatype 'd Composite_object =
    Composite_AddTotalsRowTransformer
  | Composite_ColumnsSelectorTransformer "string list"
  | Composite_FunctionTransformer "'d callable"
  | Composite_Pipeline "addr list"

type_synonym 'd Composite_heap = "'d Composite_object list"

text \<open>
  \<^verbatim>\<open>list(*transformations)\<close>: the arguments are spread over the parameters of
  \<^verbatim>\<open>list\<close>, which takes at most one, an iterable. No class of the module defines
  \<^verbatim>\<open>__iter__\<close> or \<^verbatim>\<open>__getitem__\<close>, so a single transformer is not iterable.
\<close>

fun list_star :: "'d Composite_heap \<Rightarrow> addr list \<Rightarrow> error + addr list" where
  "list_star h [] = Inr []"
| "list_star h [t] =
     (case lookup h t of
        None \<Rightarrow> Inl NoSuchObject
      | Some Composite_AddTotalsRowTransformer \<Rightarrow> Inl TypeError
      | Some (Composite_ColumnsSelectorTransformer cols) \<Rightarrow> Inl TypeError
      | Some (Composite_FunctionTransformer f) \<Rightarrow> Inl TypeError
      | Some (Composite_Pipeline ts) \<Rightarrow> Inl TypeError)"
| "list_star h (t # u # us) = Inl TypeError"

text \<open>The constructor call \<^verbatim>\<open>Pipeline(*transformations)\<close>: the new store and the new object.\<close>

definition Composite_Pipeline_init ::
  "'d Composite_heap \<Rightarrow> addr list \<Rightarrow> error + 'd Composite_heap \<times> addr" where
  "Composite_Pipeline_init h transformations =
     (case list_star h transformations of
        Inl e \<Rightarrow> Inl e
      | Inr ts \<Rightarrow> Inr (h @ [Composite_Pipeline ts], length h))"

text \<open>
  \<^verbatim>\<open>append\<close> returns the store and the returned reference (\<open>None\<close> is Python's
  \<^verbatim>\<open>None\<close>).
\<close>

definition Composite_append ::
  "'d Composite_heap \<Rightarrow> addr \<Rightarrow> addr \<Rightarrow> error + 'd Composite_heap \<times> addr option" where
  "Composite_append h self transformer =
     (case lookup h self of
        None \<Rightarrow> Inl NoSuchObject
      | Some (Composite_Pipeline ts) \<Rightarrow>
          Inr (h[self := Composite_Pipeline (ts @ [transformer])], Some self)
      | Some _ \<Rightarrow> Inl AttributeError)"

text \<open>The \<^verbatim>\<open>for\<close> loop of \<^verbatim>\<open>Pipeline.transform\<close>; a raising stage ends it.\<close>

fun for_transformations ::
  "(addr \<Rightarrow> 'd val \<Rightarrow> error + 'd val) \<Rightarrow> addr list \<Rightarrow> 'd val \<Rightarrow> error + 'd val" where
  "for_transformations tr [] dataset = Inr dataset"
| "for_transformations tr (t # ts) dataset =
     (case tr t dataset of
        Inl e \<Rightarrow> Inl e
      | Inr dataset' \<Rightarrow> for_transformations tr ts dataset')"

text \<open>
  \<^verbatim>\<open>transform\<close>, dispatched on the class of the object. A pipeline may contain
  pipelines, itself included, so the recursion is bounded the way the interpreter bounds
  it: the first argument is the nesting depth still allowed, and \<open>RecursionError\<close> is
  the result when it is used up.
\<close>

primrec Composite_transform ::
  "nat \<Rightarrow> 'd Composite_heap \<Rightarrow> addr \<Rightarrow> 'd val \<Rightarrow> error + 'd val" where
  "Composite_transform 0 h a dataset = Inl RecursionError"
| "Composite_transform (Suc depth) h a dataset =
     (case lookup h a of
        None \<Rightarrow> Inl NoSuchObject
      | Some Composite_AddTotalsRowTransformer \<Rightarrow> Inr dataset
      | Some (Composite_ColumnsSelectorTransformer cols) \<Rightarrow> Inr Ellipsis
      | Some (Composite_FunctionTransformer f) \<Rightarrow> f dataset
      | Some (Composite_Pipeline ts) \<Rightarrow>
          for_transformations (Composite_transform depth h) ts dataset)"

section \<open>Linked chain: \<^verbatim>\<open>Decorator_pipelining.py\<close>\<close>

text \<open>
  The three subclasses of \<^verbatim>\<open>DatasetTransformerStepBase\<close> carry the address held in
  \<^verbatim>\<open>__next_step\<close>; \<^verbatim>\<open>IdentityTransformer\<close> and \<^verbatim>\<open>Pipeline\<close> have no such field.
\<close>

datatype 'd Decorator_object =
    Decorator_IdentityTransformer
  | Decorator_ColumnsSelectorTransformer "string list" addr
  | Decorator_FunctionTransformer "'d callable" addr
  | Decorator_AddTotalsRowTransformer addr
  | Decorator_Pipeline "addr list"

type_synonym 'd Decorator_heap = "'d Decorator_object list"

fun next_step :: "'d Decorator_object \<Rightarrow> addr option" where
  "next_step (Decorator_ColumnsSelectorTransformer cols n) = Some n"
| "next_step (Decorator_FunctionTransformer f n) = Some n"
| "next_step (Decorator_AddTotalsRowTransformer n) = Some n"
| "next_step Decorator_IdentityTransformer = None"
| "next_step (Decorator_Pipeline ts) = None"

text \<open>
  \<^verbatim>\<open>set_next_step\<close> exists on the step classes only: on any other object the
  attribute lookup raises.
\<close>

definition set_next_step ::
  "'d Decorator_heap \<Rightarrow> addr \<Rightarrow> addr \<Rightarrow> error + 'd Decorator_heap" where
  "set_next_step h self nxt =
     (case lookup h self of
        None \<Rightarrow> Inl NoSuchObject
      | Some (Decorator_ColumnsSelectorTransformer cols n) \<Rightarrow>
          Inr (h[self := Decorator_ColumnsSelectorTransformer cols nxt])
      | Some (Decorator_FunctionTransformer f n) \<Rightarrow>
          Inr (h[self := Decorator_FunctionTransformer f nxt])
      | Some (Decorator_AddTotalsRowTransformer n) \<Rightarrow>
          Inr (h[self := Decorator_AddTotalsRowTransformer nxt])
      | Some Decorator_IdentityTransformer \<Rightarrow> Inl AttributeError
      | Some (Decorator_Pipeline ts) \<Rightarrow> Inl AttributeError)"

text \<open>
  \<^verbatim>\<open>Pipeline.append\<close>: a new \<^verbatim>\<open>IdentityTransformer\<close> is created and becomes the next
  step of the appended transformer; the last transformer of the list, if there is one, is
  pointed at the appended one; the list grows. The method has no \<^verbatim>\<open>return\<close>, so the
  call yields \<^verbatim>\<open>None\<close>.
\<close>

definition Decorator_append ::
  "'d Decorator_heap \<Rightarrow> addr \<Rightarrow> addr \<Rightarrow> error + 'd Decorator_heap \<times> addr option" where
  "Decorator_append h self transformer =
     (case lookup h self of
        None \<Rightarrow> Inl NoSuchObject
      | Some (Decorator_Pipeline ts) \<Rightarrow>
          (case set_next_step (h @ [Decorator_IdentityTransformer]) transformer (length h) of
             Inl e \<Rightarrow> Inl e
           | Inr h1 \<Rightarrow>
               (case (if length ts > 0 then set_next_step h1 (last ts) transformer else Inr h1) of
                  Inl e \<Rightarrow> Inl e
                | Inr h2 \<Rightarrow> Inr (h2[self := Decorator_Pipeline (ts @ [transformer])], None)))
      | Some _ \<Rightarrow> Inl AttributeError)"

text \<open>The loop of the constructor, and the constructor call \<^verbatim>\<open>Pipeline(*transfomers)\<close>.\<close>

fun for_transfomers ::
  "'d Decorator_heap \<Rightarrow> addr \<Rightarrow> addr list \<Rightarrow> error + 'd Decorator_heap" where
  "for_transfomers h self [] = Inr h"
| "for_transfomers h self (transformer # rest) =
     (case Decorator_append h self transformer of
        Inl e \<Rightarrow> Inl e
      | Inr (h', r) \<Rightarrow> for_transfomers h' self rest)"

definition Decorator_Pipeline_init ::
  "'d Decorator_heap \<Rightarrow> addr list \<Rightarrow> error + 'd Decorator_heap \<times> addr" where
  "Decorator_Pipeline_init h transfomers =
     (case for_transfomers (h @ [Decorator_Pipeline []]) (length h) transfomers of
        Inl e \<Rightarrow> Inl e
      | Inr h' \<Rightarrow> Inr (h', length h))"

text \<open>
  \<^verbatim>\<open>transform\<close>, dispatched on the class of the object: a step does its own work and
  delegates to its next step, the identity returns its input, the pipeline delegates to
  the first element of its list (\<^verbatim>\<open>self.transformers[0]\<close> raises on an empty list).
  The first argument bounds the delegation depth as in the aggregating pipeline.
\<close>

primrec Decorator_transform ::
  "nat \<Rightarrow> 'd Decorator_heap \<Rightarrow> addr \<Rightarrow> 'd val \<Rightarrow> error + 'd val" where
  "Decorator_transform 0 h a dataset = Inl RecursionError"
| "Decorator_transform (Suc depth) h a dataset =
     (case lookup h a of
        None \<Rightarrow> Inl NoSuchObject
      | Some Decorator_IdentityTransformer \<Rightarrow> Inr dataset
      | Some (Decorator_ColumnsSelectorTransformer cols n) \<Rightarrow>
          Decorator_transform depth h n Ellipsis
      | Some (Decorator_FunctionTransformer f n) \<Rightarrow>
          (case f dataset of
             Inl e \<Rightarrow> Inl e
           | Inr dataset' \<Rightarrow> Decorator_transform depth h n dataset')
      | Some (Decorator_AddTotalsRowTransformer n) \<Rightarrow> Decorator_transform depth h n dataset
      | Some (Decorator_Pipeline ts) \<Rightarrow>
          (case ts of
             [] \<Rightarrow> Inl IndexError
           | t # rest \<Rightarrow> Decorator_transform depth h t dataset))"

text \<open>
  A method call on a returned reference, as in \<^verbatim>\<open>p.append(s1).append(s2)\<close>: on
  \<^verbatim>\<open>None\<close> the attribute lookup raises.
\<close>

definition call_on ::
  "addr option \<Rightarrow> (addr \<Rightarrow> error + 'a) \<Rightarrow> error + 'a" where
  "call_on r method = (case r of None \<Rightarrow> Inl AttributeError | Some a \<Rightarrow> method a)"

definition Composite_append_append ::
  "'d Composite_heap \<Rightarrow> addr \<Rightarrow> addr \<Rightarrow> addr \<Rightarrow> error + 'd Composite_heap \<times> addr option" where
  "Composite_append_append h p s1 s2 =
     (case Composite_append h p s1 of
        Inl e \<Rightarrow> Inl e
      | Inr (h', r) \<Rightarrow> call_on r (\<lambda>a. Composite_append h' a s2))"

definition Decorator_append_append ::
  "'d Decorator_heap \<Rightarrow> addr \<Rightarrow> addr \<Rightarrow> addr \<Rightarrow> error + 'd Decorator_heap \<times> addr option" where
  "Decorator_append_append h p s1 s2 =
     (case Decorator_append h p s1 of
        Inl e \<Rightarrow> Inl e
      | Inr (h', r) \<Rightarrow> call_on r (\<lambda>a. Decorator_append h' a s2))"

text \<open>
  Reading the store of the linked chain: the address in \<^verbatim>\<open>__next_step\<close> of a step
  (\<open>None\<close> for an object that has no such field), and whether an address holds an
  \<^verbatim>\<open>IdentityTransformer\<close>.
\<close>

definition next_of :: "'d Decorator_heap \<Rightarrow> addr \<Rightarrow> addr option" where
  "next_of h a = (case lookup h a of None \<Rightarrow> None | Some ob \<Rightarrow> next_step ob)"

definition is_identity :: "'d Decorator_heap \<Rightarrow> addr \<Rightarrow> bool" where
  "is_identity h a = (lookup h a = Some Decorator_IdentityTransformer)"

text \<open>
  Three functions used to state properties of a linked chain. \<open>chain_closed h ts\<close>
  says that in the store \<open>h\<close> every stage of the list \<open>ts\<close> has the following stage
  of the list as its next step and the last stage has an \<^verbatim>\<open>IdentityTransformer\<close> as
  its next step. \<open>own_work\<close> is what the \<^verbatim>\<open>transform\<close> of an object does before it
  delegates, and \<open>for_steps\<close> does the own work of every stage of a list, in order.
\<close>

fun chain_closed :: "'d Decorator_heap \<Rightarrow> addr list \<Rightarrow> bool" where
  "chain_closed h [] = True"
| "chain_closed h [a] = (case next_of h a of None \<Rightarrow> False | Some n \<Rightarrow> is_identity h n)"
| "chain_closed h (a # b # rest) = (next_of h a = Some b \<and> chain_closed h (b # rest))"

fun own_work :: "'d Decorator_object \<Rightarrow> 'd val \<Rightarrow> error + 'd val" where
  "own_work (Decorator_ColumnsSelectorTransformer cols n) dataset = Inr Ellipsis"
| "own_work (Decorator_FunctionTransformer f n) dataset = f dataset"
| "own_work (Decorator_AddTotalsRowTransformer n) dataset = Inr dataset"
| "own_work Decorator_IdentityTransformer dataset = Inr dataset"
| "own_work (Decorator_Pipeline ts) dataset = Inr dataset"

fun for_steps :: "'d Decorator_heap \<Rightarrow> addr list \<Rightarrow> 'd val \<Rightarrow> error + 'd val" where
  "for_steps h [] dataset = Inr dataset"
| "for_steps h (t # ts) dataset =
     (case lookup h t of
        None \<Rightarrow> Inl NoSuchObject
      | Some ob \<Rightarrow>
          (case own_work ob dataset of
             Inl e \<Rightarrow> Inl e
           | Inr dataset' \<Rightarrow> for_steps h ts dataset'))"

text \<open>The recorded log lines whose message starts with a given text.\<close>

definition entries_starting :: "string \<Rightarrow> Recorded \<Rightarrow> (string \<times> LogLevel) list" where
  "entries_starting s w = filter (\<lambda>(message, log_level). prefix s message) (log_entries w)"

section \<open>Properties of the chain of responsibility\<close>

subsection \<open>The loop\<close>

text \<open>
  When every handler returns with the flag false the loop calls all of them, in order, and
  ends by exhaustion.
\<close>

lemma for_handlers_exhausted:
  "all_leave_unhandled hs (handling_context r) (world r) \<Longrightarrow>
   for_handlers i hs r =
     (False, r\<lparr>handling_context := fst (run_handlers hs (handling_context r) (world r)),
               world := snd (run_handlers hs (handling_context r) (world r)),
               invoked := invoked r @ [i..<i + length hs]\<rparr>)"
proof (induction hs arbitrary: i r)
  case Nil
  then show ?case by simp
next
  case (Cons h hs)
  obtain c w where hw: "h (handling_context r) (world r) = (c, w)" by force
  let ?r' = "r\<lparr>handling_context := c, world := w, invoked := invoked r @ [i]\<rparr>"
  from Cons.prems hw have nh: "\<not> is_handled c" and rest: "all_leave_unhandled hs c w" by auto
  from rest have "all_leave_unhandled hs (handling_context ?r') (world ?r')" by simp
  from Cons.IH[OF this, of "Suc i"] nh hw show ?case
    by (simp add: upt_conv_Cons del: upt_Suc)
qed

text \<open>
  When the handlers of \<open>pre\<close> return with the flag false and \<open>h\<close> sets it, the loop
  ends by \<^verbatim>\<open>break\<close> right after \<open>h\<close>, whatever follows \<open>h\<close>.
\<close>

lemma for_handlers_claimed:
  assumes "all_leave_unhandled pre (handling_context r) (world r)"
    and "run_handlers pre (handling_context r) (world r) = (c1, w1)"
    and "is_handled (fst (h c1 w1))"
  shows "for_handlers i (pre @ h # post) r =
     (True, r\<lparr>handling_context := fst (h c1 w1), world := snd (h c1 w1),
              invoked := invoked r @ [i..<Suc (i + length pre)]\<rparr>)"
  using assms
proof (induction pre arbitrary: i r)
  case Nil
  then show ?case by (simp add: case_prod_beta)
next
  case (Cons g pre)
  obtain c w where gw: "g (handling_context r) (world r) = (c, w)" by force
  let ?r' = "r\<lparr>handling_context := c, world := w, invoked := invoked r @ [i]\<rparr>"
  from Cons.prems gw have nh: "\<not> is_handled c" and rest: "all_leave_unhandled pre c w"
    and run: "run_handlers pre c w = (c1, w1)" by auto
  have "for_handlers (Suc i) (pre @ h # post) ?r' =
     (True, ?r'\<lparr>handling_context := fst (h c1 w1), world := snd (h c1 w1),
              invoked := invoked ?r' @ [Suc i..<Suc (Suc i + length pre)]\<rparr>)"
    by (rule Cons.IH) (use rest run Cons.prems(3) in simp_all)
  with nh gw show ?case
    by (simp add: upt_conv_Cons del: upt_Suc)
qed

text \<open>A last handler that always sets the flag keeps the loop from exhaustion.\<close>

lemma for_handlers_last_claims:
  "hs \<noteq> [] \<Longrightarrow> (\<And>c w. is_handled (fst (last hs c w))) \<Longrightarrow> fst (for_handlers i hs r)"
proof (induction hs arbitrary: i r)
  case Nil
  then show ?case by simp
next
  case (Cons h hs)
  show ?case
  proof (cases "hs = []")
    case True
    with Cons.prems(2)[of "handling_context r" "world r"] show ?thesis
      by (simp add: case_prod_beta)
  next
    case False
    with Cons.prems have "\<And>c w. is_handled (fst (last hs c w))" by simp
    from Cons.IH[OF False this] show ?thesis
      by (simp add: case_prod_beta Let_def)
  qed
qed

lemma for_handlers_fallback_calls:
  "fallback_calls (snd (for_handlers i hs r)) = fallback_calls r"
  by (induction hs arbitrary: i r) (simp_all add: case_prod_beta Let_def)

subsection \<open>Exhaustion\<close>

text \<open>
  Claim C2. If every handler of the configured sequence leaves the flag of the context
  false, \<^verbatim>\<open>handle_exception\<close> takes the \<^verbatim>\<open>else\<close> branch exactly once: all handlers
  were called, in order, and the final world is the configured \<^verbatim>\<open>shutdown\<close> applied
  once to the world the handlers left.
\<close>

theorem handle_exception_exhaustion_fallback_once: 
  assumes "all_leave_unhandled hs \<lparr>exception = ex, is_handled = False\<rparr> w"
  shows "fallback_calls (handle_exception gs hs ex w) = 1
       \<and> invoked (handle_exception gs hs ex w) = [0..<length hs]
       \<and> world (handle_exception gs hs ex w) =
           gs (snd (run_handlers hs \<lparr>exception = ex, is_handled = False\<rparr> w))"
proof -
  let ?r0 = "\<lparr>handling_context = \<lparr>exception = ex, is_handled = False\<rparr>, world = w,
              invoked = [], fallback_calls = 0\<rparr>"
  from assms have "all_leave_unhandled hs (handling_context ?r0) (world ?r0)" by simp
  from for_handlers_exhausted[OF this, of 0] show ?thesis
    by (simp add: handle_exception_def)
qed

theorem handle_exception_exhaustion_fallback_once_witness:
  "all_leave_unhandled
     [ModuleNotFoundErrorHandler recording_try_load_from_plugin recording_log,
      KeyboardInterruptHandler recording_shutdown,
      NotImplementedErrorHandler recording_shutdown recording_log]
     \<lparr>exception = ModuleNotFoundError None ''no name'', is_handled = False\<rparr> nothing_recorded \<and>
   fallback_calls (handle_exception recording_shutdown
     [ModuleNotFoundErrorHandler recording_try_load_from_plugin recording_log,
      KeyboardInterruptHandler recording_shutdown,
      NotImplementedErrorHandler recording_shutdown recording_log]
     (ModuleNotFoundError None ''no name'') nothing_recorded) = 1 \<and>
   shutdown_calls (world (handle_exception recording_shutdown
     [ModuleNotFoundErrorHandler recording_try_load_from_plugin recording_log,
      KeyboardInterruptHandler recording_shutdown,
      NotImplementedErrorHandler recording_shutdown recording_log]
     (ModuleNotFoundError None ''no name'') nothing_recorded)) = 1"
proof -
  let ?hs = "[ModuleNotFoundErrorHandler recording_try_load_from_plugin recording_log,
      KeyboardInterruptHandler recording_shutdown,
      NotImplementedErrorHandler recording_shutdown recording_log]"
  have h: "all_leave_unhandled ?hs
     \<lparr>exception = ModuleNotFoundError None ''no name'', is_handled = False\<rparr> nothing_recorded"
    by simp
  from handle_exception_exhaustion_fallback_once[OF h, of recording_shutdown] h show ?thesis
    by (simp add: recording_shutdown_def recording_log_def nothing_recorded_def)
qed

subsection \<open>Short circuit\<close>

text \<open>
  Claim C3. If \<open>h\<close> is the first handler that sets the flag (the handlers \<open>pre\<close> before
  it leave it false), the handlers called are exactly those at positions
  \<open>0 .. length pre\<close>: no handler of \<open>post\<close> is called, the \<^verbatim>\<open>else\<close> branch is not
  taken, and the context and the world are as \<open>h\<close> left them.
\<close>

theorem handle_exception_short_circuit:
  assumes "all_leave_unhandled pre \<lparr>exception = ex, is_handled = False\<rparr> w"
    and "run_handlers pre \<lparr>exception = ex, is_handled = False\<rparr> w = (c1, w1)"
    and "is_handled (fst (h c1 w1))"
  shows "handle_exception gs (pre @ h # post) ex w =
     \<lparr>handling_context = fst (h c1 w1), world = snd (h c1 w1),
      invoked = [0..<Suc (length pre)], fallback_calls = 0\<rparr>"
proof -
  let ?r0 = "\<lparr>handling_context = \<lparr>exception = ex, is_handled = False\<rparr>, world = w,
              invoked = [], fallback_calls = 0\<rparr>"
  have "for_handlers 0 (pre @ h # post) ?r0 =
     (True, ?r0\<lparr>handling_context := fst (h c1 w1), world := snd (h c1 w1),
              invoked := invoked ?r0 @ [0..<Suc (0 + length pre)]\<rparr>)"
    by (rule for_handlers_claimed) (use assms in simp_all)
  then show ?thesis
    by (simp add: handle_exception_def)
qed

theorem handle_exception_short_circuit_witness:
  "all_leave_unhandled
     [ModuleNotFoundErrorHandler recording_try_load_from_plugin recording_log,
      KeyboardInterruptHandler recording_shutdown]
     \<lparr>exception = NotImplementedError ''todo'', is_handled = False\<rparr> nothing_recorded \<and>
   run_handlers
     [ModuleNotFoundErrorHandler recording_try_load_from_plugin recording_log,
      KeyboardInterruptHandler recording_shutdown]
     \<lparr>exception = NotImplementedError ''todo'', is_handled = False\<rparr> nothing_recorded
     = (\<lparr>exception = NotImplementedError ''todo'', is_handled = False\<rparr>, nothing_recorded) \<and>
   is_handled (fst (NotImplementedErrorHandler recording_shutdown recording_log
     \<lparr>exception = NotImplementedError ''todo'', is_handled = False\<rparr> nothing_recorded)) \<and>
   handle_exception recording_shutdown
     ([ModuleNotFoundErrorHandler recording_try_load_from_plugin recording_log,
       KeyboardInterruptHandler recording_shutdown]
      @ NotImplementedErrorHandler recording_shutdown recording_log
      # [UnexpectedExceptionHandler recording_shutdown recording_log])
     (NotImplementedError ''todo'') nothing_recorded
   = \<lparr>handling_context = \<lparr>exception = NotImplementedError ''todo'', is_handled = True\<rparr>,
      world = \<lparr>log_entries = [(''NotImplemented error: todo'', ERROR)], shutdown_calls = 1,
               plugin_loads = []\<rparr>,
      invoked = [0, 1, 2], fallback_calls = 0\<rparr>"
proof -
  let ?pre = "[ModuleNotFoundErrorHandler recording_try_load_from_plugin recording_log,
      KeyboardInterruptHandler recording_shutdown]"
  let ?c = "\<lparr>exception = NotImplementedError ''todo'', is_handled = False\<rparr>"
  have a: "all_leave_unhandled ?pre ?c nothing_recorded" by simp
  have b: "run_handlers ?pre ?c nothing_recorded = (?c, nothing_recorded)" by simp
  have c: "is_handled (fst (NotImplementedErrorHandler recording_shutdown recording_log
     ?c nothing_recorded))" by simp
  from handle_exception_short_circuit[where pre = ?pre and ex = "NotImplementedError ''todo''" and w = nothing_recorded
      and ?c1.0 = ?c and ?w1.0 = nothing_recorded
      and h = "NotImplementedErrorHandler recording_shutdown recording_log"
      and gs = recording_shutdown
      and post = "[UnexpectedExceptionHandler recording_shutdown recording_log]", OF a b c] a b c
  show ?thesis
    by (simp add: recording_shutdown_def recording_log_def nothing_recorded_def)
qed

subsection \<open>The scenario of \<^verbatim>\<open>good_main\<close>\<close>

text \<open>
  Claim C8. The chain of \<^verbatim>\<open>good_main\<close> with recording collaborators, on a
  \<^verbatim>\<open>ModuleNotFoundError\<close> whose name is \<^verbatim>\<open>None\<close>: the first handler writes one error
  line and leaves the flag false, the next two decline, the last one writes one
  "Unexpected exception" line, calls \<^verbatim>\<open>shutdown\<close> once and sets the flag; all four
  handlers are called and the \<^verbatim>\<open>else\<close> branch is not taken. Of the two lines written,
  exactly one starts with "Unexpected exception".
\<close>

theorem good_main_module_without_name:
  "handle_exception recording_shutdown
     (good_main_handlers recording_try_load_from_plugin recording_shutdown recording_log)
     (ModuleNotFoundError None m) w =
   \<lparr>handling_context = \<lparr>exception = ModuleNotFoundError None m, is_handled = True\<rparr>,
    world = w\<lparr>log_entries := log_entries w @
                 [(''ModuleNotFoundError without module name: '' @ m, ERROR),
                  (''Unexpected exception: '' @ m, ERROR)],
              shutdown_calls := Suc (shutdown_calls w)\<rparr>,
    invoked = [0, 1, 2, 3], fallback_calls = 0\<rparr> \<and>
   \<not> is_handled (fst (ModuleNotFoundErrorHandler recording_try_load_from_plugin recording_log
       \<lparr>exception = ModuleNotFoundError None m, is_handled = False\<rparr> w)) \<and>
   entries_starting ''Unexpected exception''
     (world (handle_exception recording_shutdown
       (good_main_handlers recording_try_load_from_plugin recording_shutdown recording_log)
       (ModuleNotFoundError None m) nothing_recorded))
   = [(''Unexpected exception: '' @ m, ERROR)]"
  by (simp add: handle_exception_def good_main_handlers_def recording_log_def
      recording_shutdown_def entries_starting_def nothing_recorded_def)

subsection \<open>The catch-all handler\<close>

text \<open>A loop left by \<^verbatim>\<open>break\<close> leaves the flag of the context set.\<close>

lemma for_handlers_broke_handled:
  "fst (for_handlers i hs r) \<Longrightarrow> is_handled (handling_context (snd (for_handlers i hs r)))"
  by (induction hs arbitrary: i r) (simp_all add: case_prod_beta Let_def split: if_splits)

text \<open>
  Claim C9. \<^verbatim>\<open>UnexpectedExceptionHandler.handle\<close>, for every context and whatever the
  exception, writes the "Unexpected exception" line at level \<^verbatim>\<open>ERROR\<close>, then calls
  \<^verbatim>\<open>shutdown\<close>, and sets the flag: with recording collaborators exactly one line is
  added to the log and exactly one \<^verbatim>\<open>shutdown\<close> is counted. Hence in a chain whose
  last handler is an \<^verbatim>\<open>UnexpectedExceptionHandler\<close> the \<^verbatim>\<open>else\<close> branch of the loop
  is never taken, and the run ends with the flag set.
\<close>

theorem UnexpectedExceptionHandler_makes_fallback_unreachable:
  "UnexpectedExceptionHandler gs lg c w =
     (c\<lparr>is_handled := True\<rparr>, gs (lg (''Unexpected exception: '' @ str (exception c)) ERROR w)) \<and>
   is_handled (fst (UnexpectedExceptionHandler gs lg c w)) \<and>
   snd (UnexpectedExceptionHandler recording_shutdown recording_log c r) =
     r\<lparr>log_entries := log_entries r @ [(''Unexpected exception: '' @ str (exception c), ERROR)],
       shutdown_calls := Suc (shutdown_calls r)\<rparr> \<and>
   (hs \<noteq> [] \<and> last hs = UnexpectedExceptionHandler gs lg \<longrightarrow>
      fallback_calls (handle_exception gs' hs ex w') = 0 \<and>
      is_handled (handling_context (handle_exception gs' hs ex w')))"
proof (intro conjI impI)
  show "UnexpectedExceptionHandler gs lg c w =
     (c\<lparr>is_handled := True\<rparr>, gs (lg (''Unexpected exception: '' @ str (exception c)) ERROR w))"
    by simp
  show "is_handled (fst (UnexpectedExceptionHandler gs lg c w))" by simp
  show "snd (UnexpectedExceptionHandler recording_shutdown recording_log c r) =
     r\<lparr>log_entries := log_entries r @ [(''Unexpected exception: '' @ str (exception c), ERROR)],
       shutdown_calls := Suc (shutdown_calls r)\<rparr>"
    by (simp add: recording_shutdown_def recording_log_def)
next
  assume a: "hs \<noteq> [] \<and> last hs = UnexpectedExceptionHandler gs lg"
  let ?r0 = "\<lparr>handling_context = \<lparr>exception = ex, is_handled = False\<rparr>, world = w',
              invoked = [], fallback_calls = 0\<rparr>"
  from a have b: "fst (for_handlers 0 hs ?r0)"
    by (intro for_handlers_last_claims) simp_all
  moreover have "fallback_calls (snd (for_handlers 0 hs ?r0)) = 0"
    by (simp add: for_handlers_fallback_calls)
  ultimately show "fallback_calls (handle_exception gs' hs ex w') = 0"
    by (simp add: handle_exception_def case_prod_beta)
  from for_handlers_broke_handled[OF b] b
  show "is_handled (handling_context (handle_exception gs' hs ex w'))"
    by (simp add: handle_exception_def case_prod_beta)
qed

theorem UnexpectedExceptionHandler_makes_fallback_unreachable_witness:
  "UnexpectedExceptionHandler recording_shutdown recording_log
       \<lparr>exception = KeyboardInterrupt ''stop'', is_handled = False\<rparr> nothing_recorded
     = (\<lparr>exception = KeyboardInterrupt ''stop'', is_handled = True\<rparr>,
        \<lparr>log_entries = [(''Unexpected exception: stop'', ERROR)], shutdown_calls = 1,
         plugin_loads = []\<rparr>) \<and>
   good_main_handlers recording_try_load_from_plugin recording_shutdown recording_log \<noteq> [] \<and>
   last (good_main_handlers recording_try_load_from_plugin recording_shutdown recording_log)
     = UnexpectedExceptionHandler recording_shutdown recording_log \<and>
   fallback_calls (handle_exception recording_shutdown
     (good_main_handlers recording_try_load_from_plugin recording_shutdown recording_log)
     (OtherException ''boom'') nothing_recorded) = 0 \<and>
   is_handled (handling_context (handle_exception recording_shutdown
     (good_main_handlers recording_try_load_from_plugin recording_shutdown recording_log)
     (OtherException ''boom'') nothing_recorded))"
proof -
  have a: "good_main_handlers recording_try_load_from_plugin recording_shutdown recording_log \<noteq> []
    \<and> last (good_main_handlers recording_try_load_from_plugin recording_shutdown recording_log)
     = UnexpectedExceptionHandler recording_shutdown recording_log"
    by (simp add: good_main_handlers_def)
  from UnexpectedExceptionHandler_makes_fallback_unreachable[of recording_shutdown recording_log
      "\<lparr>exception = KeyboardInterrupt ''stop'', is_handled = False\<rparr>" nothing_recorded
      nothing_recorded
      "good_main_handlers recording_try_load_from_plugin recording_shutdown recording_log"
      recording_shutdown "OtherException ''boom''" nothing_recorded] a
  show ?thesis
    by (simp add: recording_shutdown_def recording_log_def nothing_recorded_def)
qed

subsection \<open>No handlers\<close>

text \<open>
  Claim C10. A chain built with no handlers does not fail: the context is created, no
  handler is called, and the \<^verbatim>\<open>else\<close> branch calls the configured \<^verbatim>\<open>shutdown\<close>
  exactly once.
\<close>

theorem handle_exception_no_handlers:
  "handle_exception gs [] ex w =
     \<lparr>handling_context = \<lparr>exception = ex, is_handled = False\<rparr>, world = gs w,
      invoked = [], fallback_calls = 1\<rparr>"
  by (simp add: handle_exception_def)

section \<open>Properties of the aggregating pipeline\<close>

text \<open>
  The constructor succeeds on no arguments only: with arguments that are transformers of
  the module it raises \<^verbatim>\<open>TypeError\<close>.
\<close>

lemma Composite_Pipeline_init_fails:
  "transformations \<noteq> [] \<Longrightarrow> \<forall>t \<in> set transformations. t < length h \<Longrightarrow>
   Composite_Pipeline_init h transformations = Inl TypeError"
proof -
  assume ne: "transformations \<noteq> []" and live: "\<forall>t \<in> set transformations. t < length h"
  from ne obtain t rest where tr: "transformations = t # rest" by (cases transformations) auto
  show ?thesis
  proof (cases rest)
    case Nil
    with tr live show ?thesis
      by (simp add: Composite_Pipeline_init_def lookup_def split: Composite_object.splits)
  next
    case (Cons u us)
    with tr show ?thesis by (simp add: Composite_Pipeline_init_def)
  qed
qed

text \<open>
  Claim C1 says that \<^verbatim>\<open>Pipeline(s1, ..., sn)\<close> holds \<open>s1 .. sn\<close> in order and that
  \<^verbatim>\<open>transform\<close> folds the input through them. The constructor spreads its arguments over
  the parameters of \<^verbatim>\<open>list\<close>, so it raises for one stage and for the two stages that
  \<^verbatim>\<open>main\<close> of the module passes: no pipeline is built.
\<close>

theorem Composite_Pipeline_init_rejects_stages:
  "Composite_Pipeline_init [Composite_AddTotalsRowTransformer] [0] = Inl TypeError \<and>
   Composite_Pipeline_init
     [Composite_ColumnsSelectorTransformer [''salary'', ''bonus''], Composite_FunctionTransformer f]
     [0, 1] = Inl TypeError"
  by (simp add: Composite_Pipeline_init_def lookup_def)

text \<open>
  On a pipeline that exists, \<^verbatim>\<open>append\<close> adds the stage at the end and returns the
  pipeline, and \<^verbatim>\<open>transform\<close> is the loop over the stages in order.
\<close>

lemma Composite_append_lookup:
  "lookup h p = Some (Composite_Pipeline ts) \<Longrightarrow>
   Composite_append h p s = Inr (h[p := Composite_Pipeline (ts @ [s])], Some p)"
  by (simp add: Composite_append_def)

lemma Composite_transform_Pipeline:
  "lookup h p = Some (Composite_Pipeline ts) \<Longrightarrow>
   Composite_transform (Suc depth) h p x = for_transformations (Composite_transform depth h) ts x"
  by simp

lemma Composite_append_returns_self:
  "Composite_append h p s = Inr (h', r) \<Longrightarrow> r = Some p"
  by (auto simp: Composite_append_def split: option.splits Composite_object.splits)

text \<open>
  Claim C6. A pipeline with no stages returns its input: \<^verbatim>\<open>transform(x) == x\<close> for
  every \<open>x\<close>, at every depth that allows the call itself.
\<close>

theorem Composite_empty_pipeline_identity:
  "lookup h p = Some (Composite_Pipeline []) \<Longrightarrow> Composite_transform (Suc depth) h p x = Inr x"
  by simp

theorem Composite_empty_pipeline_identity_witness:
  "Composite_Pipeline_init ([] :: nat Composite_heap) [] = Inr ([Composite_Pipeline []], 0) \<and>
   lookup ([Composite_Pipeline []] :: nat Composite_heap) 0 = Some (Composite_Pipeline []) \<and>
   Composite_transform (Suc 0) [Composite_Pipeline []] 0 (Dataset (7::nat)) = Inr (Dataset 7)"
proof -
  have l: "lookup ([Composite_Pipeline []] :: nat Composite_heap) 0 = Some (Composite_Pipeline [])"
    by (simp add: lookup_def)
  from Composite_empty_pipeline_identity[OF l, of 0 "Dataset 7"] l show ?thesis
    by (simp add: Composite_Pipeline_init_def)
qed

section \<open>Properties of the linked chain\<close>

subsection \<open>The store\<close>

lemma lookup_append_new [simp]: "lookup (h @ [ob]) (length h) = Some ob"
  by (simp add: lookup_def)

lemma lookup_append_old: "a < length h \<Longrightarrow> lookup (h @ [ob]) a = lookup h a"
  by (simp add: lookup_def nth_append)

lemma lookup_Some_less: "lookup h a = Some ob \<Longrightarrow> a < length h"
  by (simp add: lookup_def split: if_splits)

lemma lookup_update: "lookup (h[a := ob]) b = (if a = b \<and> b < length h then Some ob else lookup h b)"
  by (simp add: lookup_def)

lemma set_next_step_step:
  assumes "next_of h a = Some n"
  shows "\<exists>ob. set_next_step h a m = Inr (h[a := ob]) \<and> next_step ob = Some m \<and> a < length h"
  using assms
  by (auto simp: next_of_def set_next_step_def dest: lookup_Some_less split: option.splits Decorator_object.splits)

lemma set_next_step_effect:
  assumes "set_next_step h a m = Inr h'"
  shows "length h' = length h \<and> next_of h' a = Some m \<and> (\<forall>b. b \<noteq> a \<longrightarrow> lookup h' b = lookup h b)
     \<and> (\<forall>b. (next_of h' b = None) = (next_of h b = None))"
  using assms
  by (auto simp: next_of_def set_next_step_def lookup_update dest: lookup_Some_less split: option.splits Decorator_object.splits if_splits)

subsection \<open>Wiring by \<^verbatim>\<open>append\<close>\<close>

text \<open>
  Claim C4 says that after every \<^verbatim>\<open>append(S)\<close> the next step of \<open>S\<close> is an
  \<^verbatim>\<open>IdentityTransformer\<close> and the chain has no dangling stage. It fails when \<open>S\<close> is
  already in the pipeline. \<^verbatim>\<open>Pipeline(S)\<close> followed by \<^verbatim>\<open>append(S)\<close> first points
  \<open>S\<close> at a new identity and then, as the previously last stage, at \<open>S\<close> itself.
  \<^verbatim>\<open>Pipeline(A, B)\<close> runs \<open>B\<close>; after \<^verbatim>\<open>append(A)\<close> the next step of \<open>A\<close> is the new
  identity, so \<^verbatim>\<open>transform\<close> ends after \<open>A\<close> and \<open>B\<close> is not run any more.
\<close>

theorem Decorator_append_last_stage_again:
  "Decorator_Pipeline_init
     ([Decorator_IdentityTransformer, Decorator_AddTotalsRowTransformer 0] :: nat Decorator_heap) [1]
   = Inr ([Decorator_IdentityTransformer, Decorator_AddTotalsRowTransformer 3,
           Decorator_Pipeline [1], Decorator_IdentityTransformer], 2) \<and>
   Decorator_append
     ([Decorator_IdentityTransformer, Decorator_AddTotalsRowTransformer 3,
       Decorator_Pipeline [1], Decorator_IdentityTransformer] :: nat Decorator_heap) 2 1
   = Inr ([Decorator_IdentityTransformer, Decorator_AddTotalsRowTransformer 1,
           Decorator_Pipeline [1, 1], Decorator_IdentityTransformer,
           Decorator_IdentityTransformer], None) \<and>
   next_of ([Decorator_IdentityTransformer, Decorator_AddTotalsRowTransformer 1,
           Decorator_Pipeline [1, 1], Decorator_IdentityTransformer,
           Decorator_IdentityTransformer] :: nat Decorator_heap) 1 = Some 1 \<and>
   \<not> is_identity ([Decorator_IdentityTransformer, Decorator_AddTotalsRowTransformer 1,
           Decorator_Pipeline [1, 1], Decorator_IdentityTransformer,
           Decorator_IdentityTransformer] :: nat Decorator_heap) 1 \<and>
   Decorator_Pipeline_init
     ([Decorator_IdentityTransformer, Decorator_AddTotalsRowTransformer 0,
       Decorator_IdentityTransformer, Decorator_FunctionTransformer (\<lambda>d. Inr Ellipsis) 2]
      :: nat Decorator_heap) [1, 3]
   = Inr ([Decorator_IdentityTransformer, Decorator_AddTotalsRowTransformer 3,
           Decorator_IdentityTransformer, Decorator_FunctionTransformer (\<lambda>d. Inr Ellipsis) 6,
           Decorator_Pipeline [1, 3], Decorator_IdentityTransformer,
           Decorator_IdentityTransformer], 4) \<and>
   Decorator_transform 4
     ([Decorator_IdentityTransformer, Decorator_AddTotalsRowTransformer 3,
       Decorator_IdentityTransformer, Decorator_FunctionTransformer (\<lambda>d. Inr Ellipsis) 6,
       Decorator_Pipeline [1, 3], Decorator_IdentityTransformer,
       Decorator_IdentityTransformer] :: nat Decorator_heap) 4 (Dataset 7) = Inr Ellipsis \<and>
   Decorator_append
     ([Decorator_IdentityTransformer, Decorator_AddTotalsRowTransformer 3,
       Decorator_IdentityTransformer, Decorator_FunctionTransformer (\<lambda>d. Inr Ellipsis) 6,
       Decorator_Pipeline [1, 3], Decorator_IdentityTransformer,
       Decorator_IdentityTransformer] :: nat Decorator_heap) 4 1
   = Inr ([Decorator_IdentityTransformer, Decorator_AddTotalsRowTransformer 7,
           Decorator_IdentityTransformer, Decorator_FunctionTransformer (\<lambda>d. Inr Ellipsis) 1,
           Decorator_Pipeline [1, 3, 1], Decorator_IdentityTransformer,
           Decorator_IdentityTransformer, Decorator_IdentityTransformer], None) \<and>
   Decorator_transform 4
     ([Decorator_IdentityTransformer, Decorator_AddTotalsRowTransformer 7,
       Decorator_IdentityTransformer, Decorator_FunctionTransformer (\<lambda>d. Inr Ellipsis) 1,
       Decorator_Pipeline [1, 3, 1], Decorator_IdentityTransformer,
       Decorator_IdentityTransformer, Decorator_IdentityTransformer] :: nat Decorator_heap)
     4 (Dataset 7) = Inr (Dataset 7) \<and>
   \<not> chain_closed
     ([Decorator_IdentityTransformer, Decorator_AddTotalsRowTransformer 7,
       Decorator_IdentityTransformer, Decorator_FunctionTransformer (\<lambda>d. Inr Ellipsis) 1,
       Decorator_Pipeline [1, 3, 1], Decorator_IdentityTransformer,
       Decorator_IdentityTransformer, Decorator_IdentityTransformer] :: nat Decorator_heap)
     [1, 3, 1]"
  by (simp add: Decorator_Pipeline_init_def Decorator_append_def set_next_step_def lookup_def
      next_of_def is_identity_def eval_nat_numeral)

text \<open>Setting a next step changes no object's own work.\<close>

lemma set_next_step_own_work:
  assumes "set_next_step h a m = Inr h'"
  shows "map_option own_work (lookup h' b) = map_option own_work (lookup h b)"
  using assms
  by (auto simp: set_next_step_def lookup_update fun_eq_iff dest: lookup_Some_less
      split: option.splits Decorator_object.splits if_splits)

lemma next_of_less: "next_of h a = Some n \<Longrightarrow> a < length h"
  by (auto simp: next_of_def dest: lookup_Some_less split: option.splits)

text \<open>
  What \<^verbatim>\<open>append(S)\<close> does to the store when \<open>S\<close> is a step other than the last stage
  of the list: the objects other than \<open>S\<close>, the last stage and the pipeline are as
  before.
\<close>

lemma Decorator_append_rewires:
  assumes p: "lookup h p = Some (Decorator_Pipeline ts)"
    and S: "next_of h S \<noteq> None"
    and S1: "ts \<noteq> [] \<longrightarrow> last ts \<noteq> S \<and> next_of h (last ts) \<noteq> None"
  shows "\<exists>h'. Decorator_append h p S = Inr (h', None)
           \<and> length h' = Suc (length h)
           \<and> lookup h' p = Some (Decorator_Pipeline (ts @ [S]))
           \<and> next_of h' S = Some (length h) \<and> is_identity h' (length h)
           \<and> (ts \<noteq> [] \<longrightarrow> next_of h' (last ts) = Some S)
           \<and> (\<forall>a. a \<noteq> S \<and> a \<noteq> p \<and> a < length h \<and> (ts \<noteq> [] \<longrightarrow> a \<noteq> last ts)
                  \<longrightarrow> lookup h' a = lookup h a)
           \<and> (\<forall>a. a \<noteq> p \<and> a < length h
                  \<longrightarrow> map_option own_work (lookup h' a) = map_option own_work (lookup h a))"
proof -
  let ?h0 = "h @ [Decorator_IdentityTransformer]"
  from p have pl: "p < length h" by (rule lookup_Some_less)
  from S obtain n where n: "next_of h S = Some n" by auto
  then have Sl: "S < length h" by (rule next_of_less)
  from n Sl have "next_of ?h0 S = Some n" by (simp add: next_of_def lookup_append_old)
  from set_next_step_step[OF this, of "length h"]
  obtain h1 where h1: "set_next_step ?h0 S (length h) = Inr h1" by auto
  note e1 = set_next_step_effect[OF h1]
  note w1 = set_next_step_own_work[OF h1]
  from p S have pS: "p \<noteq> S" by (auto simp: next_of_def)
  have p1: "lookup h1 p = Some (Decorator_Pipeline ts)"
    using e1 pS p pl by (simp add: lookup_append_old)
  have id1: "lookup h1 (length h) = Some Decorator_IdentityTransformer"
    using e1 Sl by simp
  have fr1: "\<And>a. a \<noteq> S \<Longrightarrow> a < length h \<Longrightarrow> lookup h1 a = lookup h a"
    using e1 by (simp add: lookup_append_old)
  have ow1: "\<And>a. a < length h \<Longrightarrow> map_option own_work (lookup h1 a) = map_option own_work (lookup h a)"
    using w1 by (simp add: lookup_append_old)
  show ?thesis
  proof (cases "ts = []")
    case True
    from pS e1 have nS: "next_of (h1[p := Decorator_Pipeline [S]]) S = Some (length h)"
      by (simp add: next_of_def lookup_update)
    have fr: "\<forall>a. a \<noteq> S \<and> a \<noteq> p \<and> a < length h
         \<longrightarrow> lookup (h1[p := Decorator_Pipeline [S]]) a = lookup h a"
      using fr1 by (simp add: lookup_update)
    have ow: "\<forall>a. a \<noteq> p \<and> a < length h
         \<longrightarrow> map_option own_work (lookup (h1[p := Decorator_Pipeline [S]]) a)
              = map_option own_work (lookup h a)"
      using ow1 by (simp add: lookup_update)
    from True p h1 e1 p1 id1 pl nS fr ow show ?thesis
      by (simp add: Decorator_append_def is_identity_def lookup_update)
  next
    case False
    with S1 have ne: "last ts \<noteq> S" and st: "next_of h (last ts) \<noteq> None" by auto
    from st have ll: "last ts < length h"
      by (auto simp: next_of_def dest: lookup_Some_less split: option.splits)
    from st ll have "next_of ?h0 (last ts) \<noteq> None" by (simp add: next_of_def lookup_append_old)
    with e1 have "next_of h1 (last ts) \<noteq> None" by simp
    then obtain k where "next_of h1 (last ts) = Some k" by blast
    from set_next_step_step[OF this, of S]
    obtain h2 where h2: "set_next_step h1 (last ts) S = Inr h2" by auto
    note e2 = set_next_step_effect[OF h2]
    note w2 = set_next_step_own_work[OF h2]
    from p st have pL: "p \<noteq> last ts" by (auto simp: next_of_def)
    have "lookup h2 S = lookup h1 S" using e2 ne by simp
    then have nS: "next_of h2 S = Some (length h)" using e1 by (simp add: next_of_def)
    have id2: "lookup h2 (length h) = Some Decorator_IdentityTransformer"
      using e2 id1 ll by simp
    have len2: "length h2 = Suc (length h)" using e1 e2 by simp
    let ?h' = "h2[p := Decorator_Pipeline (ts @ [S])]"
    have fr: "\<forall>a. a \<noteq> S \<and> a \<noteq> p \<and> a < length h \<and> a \<noteq> last ts
         \<longrightarrow> lookup ?h' a = lookup h a"
      using fr1 e2 by (simp add: lookup_update)
    have ow: "\<forall>a. a \<noteq> p \<and> a < length h
         \<longrightarrow> map_option own_work (lookup ?h' a) = map_option own_work (lookup h a)"
      using ow1 w2 by (simp add: lookup_update)
    have a: "Decorator_append h p S = Inr (?h', None)"
      using False p h1 h2 by (simp add: Decorator_append_def)
    have b: "lookup ?h' p = Some (Decorator_Pipeline (ts @ [S]))"
      using len2 pl by (simp add: lookup_update)
    have c: "next_of ?h' S = Some (length h)"
      using nS pS by (simp add: next_of_def lookup_update)
    have d: "is_identity ?h' (length h)"
      using id2 pl by (simp add: is_identity_def lookup_update)
    have e: "next_of ?h' (last ts) = Some S"
      using e2 pL by (simp add: next_of_def lookup_update)
    from a b c d e fr ow len2 False show ?thesis by auto
  qed
qed

text \<open>A closed chain of distinct stages stays closed when a stage is linked to its end.\<close>

lemma chain_closed_snoc:
  assumes "chain_closed h ts" and "distinct ts"
    and "\<forall>a\<in>set ts. a \<noteq> last ts \<longrightarrow> next_of h' a = next_of h a"
    and "ts \<noteq> [] \<longrightarrow> next_of h' (last ts) = Some S"
    and "next_of h' S = Some n" and "is_identity h' n"
  shows "chain_closed h' (ts @ [S])"
  using assms
proof (induction h ts rule: chain_closed.induct)
  case (1 h)
  then show ?case by simp
next
  case (2 h a)
  then show ?case by simp
next
  case (3 h a b rest)
  from "3.prems" have "a \<noteq> last (a # b # rest)" by auto
  with "3.prems" have na: "next_of h' a = Some b" by simp
  have "chain_closed h' ((b # rest) @ [S])"
    by (rule "3.IH") (use "3.prems" in auto)
  with na show ?case by simp
qed

lemma chain_closed_steps: "chain_closed h ts \<Longrightarrow> a \<in> set ts \<Longrightarrow> next_of h a \<noteq> None"
  by (induction h ts rule: chain_closed.induct) (auto split: option.splits)

lemma Decorator_append_closed:
  assumes p: "lookup h p = Some (Decorator_Pipeline ts)"
    and S: "next_of h S \<noteq> None"
    and fresh: "S \<notin> set ts"
    and dist: "distinct ts"
    and closed: "chain_closed h ts"
  shows "\<exists>h'. Decorator_append h p S = Inr (h', None)
           \<and> lookup h' p = Some (Decorator_Pipeline (ts @ [S]))
           \<and> next_of h' S = Some (length h) \<and> is_identity h' (length h)
           \<and> (ts \<noteq> [] \<longrightarrow> next_of h' (last ts) = Some S)
           \<and> chain_closed h' (ts @ [S])
           \<and> (\<forall>a. a \<noteq> S \<and> a \<notin> set ts \<and> next_of h a \<noteq> None \<longrightarrow> next_of h' a \<noteq> None)"
proof -
  have S1: "ts \<noteq> [] \<longrightarrow> last ts \<noteq> S \<and> next_of h (last ts) \<noteq> None"
    using fresh chain_closed_steps[OF closed] by (metis last_in_set)
  from Decorator_append_rewires[OF p S S1] obtain h' where
    a: "Decorator_append h p S = Inr (h', None)"
    and b: "lookup h' p = Some (Decorator_Pipeline (ts @ [S]))"
    and c: "next_of h' S = Some (length h)" and d: "is_identity h' (length h)"
    and e: "ts \<noteq> [] \<longrightarrow> next_of h' (last ts) = Some S"
    and fr: "\<forall>a. a \<noteq> S \<and> a \<noteq> p \<and> a < length h \<and> (ts \<noteq> [] \<longrightarrow> a \<noteq> last ts)
                  \<longrightarrow> lookup h' a = lookup h a"
    by blast
  have keep: "next_of h' a = next_of h a"
    if "a \<noteq> S" and "ts \<noteq> [] \<longrightarrow> a \<noteq> last ts" and "next_of h a \<noteq> None" for a
  proof -
    from that(3) obtain k where k: "next_of h a = Some k" by auto
    then have "a < length h" by (rule next_of_less)
    moreover from k p have "a \<noteq> p" by (auto simp: next_of_def)
    ultimately have "lookup h' a = lookup h a" using fr that by simp
    then show ?thesis by (simp add: next_of_def)
  qed
  have "\<forall>a\<in>set ts. a \<noteq> last ts \<longrightarrow> next_of h' a = next_of h a"
  proof (intro ballI impI)
    fix a assume a1: "a \<in> set ts" and a2: "a \<noteq> last ts"
    from a1 fresh have "a \<noteq> S" by auto
    moreover from a2 have "ts \<noteq> [] \<longrightarrow> a \<noteq> last ts" by simp
    moreover note chain_closed_steps[OF closed a1]
    ultimately show "next_of h' a = next_of h a" by (rule keep)
  qed
  from chain_closed_snoc[OF closed dist this e c d]
  have f: "chain_closed h' (ts @ [S])" .
  have g: "\<forall>a. a \<noteq> S \<and> a \<notin> set ts \<and> next_of h a \<noteq> None \<longrightarrow> next_of h' a \<noteq> None"
  proof (intro allI impI)
    fix a assume h: "a \<noteq> S \<and> a \<notin> set ts \<and> next_of h a \<noteq> None"
    then have "ts \<noteq> [] \<longrightarrow> a \<noteq> last ts" by (metis last_in_set)
    with keep h show "next_of h' a \<noteq> None" by simp
  qed
  from a b c d e f g show ?thesis by blast
qed

text \<open>
  \<^verbatim>\<open>transform\<close> along a closed chain runs every stage of the list in order and ends in
  the identity.
\<close>

lemma transform_chain:
  "chain_closed h ts \<Longrightarrow> ts \<noteq> [] \<Longrightarrow>
   Decorator_transform (Suc (length ts) + k) h (hd ts) v = for_steps h ts v"
proof (induction h ts arbitrary: v rule: chain_closed.induct)
  case (1 h)
  then show ?case by simp
next
  case (2 h a)
  then show ?case
    by (auto simp: next_of_def is_identity_def split: option.splits Decorator_object.splits sum.splits)
next
  case (3 h a b rest)
  from "3.prems" have n: "next_of h a = Some b" and c: "chain_closed h (b # rest)" by auto
  have IH: "\<And>v. Decorator_transform (Suc (length (b # rest)) + k) h b v = for_steps h (b # rest) v"
    using "3.IH"[OF c] by simp
  from n obtain ob where ob: "lookup h a = Some ob" and nx: "next_step ob = Some b"
    by (auto simp: next_of_def split: option.splits)
  have "Decorator_transform (Suc (Suc (length (b # rest)) + k)) h a v
      = (case own_work ob v of Inl e \<Rightarrow> Inl e
         | Inr v' \<Rightarrow> Decorator_transform (Suc (length (b # rest)) + k) h b v')"
    using ob nx by (cases ob) (auto split: sum.splits)
  then show ?case using ob IH by (simp split: sum.splits)
qed

lemma transform_pipeline:
  assumes "lookup h p = Some (Decorator_Pipeline ts)" and "ts \<noteq> []" and "chain_closed h ts"
  shows "Decorator_transform (Suc (Suc (length ts)) + k) h p v = for_steps h ts v"
proof -
  from assms(2) obtain t rest where tr: "ts = t # rest" by (cases ts) auto
  with transform_chain[OF assms(3) assms(2), of k v] assms(1) show ?thesis by simp
qed

text \<open>
  Claim C4, amended. In a pipeline whose stages are distinct and linked in list order up
  to an \<^verbatim>\<open>IdentityTransformer\<close>, \<^verbatim>\<open>append(S)\<close> of a step \<open>S\<close> that is not already in
  the pipeline succeeds, the list grows by \<open>S\<close>, the next step of \<open>S\<close> is the newly
  created \<^verbatim>\<open>IdentityTransformer\<close>, the next step of the previously last stage is \<open>S\<close>,
  and the chain is closed again: every stage is linked to the following one, none is
  dangling, and \<^verbatim>\<open>transform\<close> runs all of them in order.
\<close>

theorem Decorator_append_terminal_closed:
  assumes p: "lookup h p = Some (Decorator_Pipeline ts)"
    and S: "next_of h S \<noteq> None"
    and fresh: "S \<notin> set ts"
    and dist: "distinct ts"
    and closed: "chain_closed h ts"
  shows "\<exists>h'. Decorator_append h p S = Inr (h', None)
           \<and> lookup h' p = Some (Decorator_Pipeline (ts @ [S]))
           \<and> next_of h' S = Some (length h) \<and> is_identity h' (length h)
           \<and> (ts \<noteq> [] \<longrightarrow> next_of h' (last ts) = Some S)
           \<and> distinct (ts @ [S]) \<and> chain_closed h' (ts @ [S])
           \<and> (\<forall>k x. Decorator_transform (Suc (Suc (length (ts @ [S]))) + k) h' p x
                      = for_steps h' (ts @ [S]) x)"
proof -
  from Decorator_append_closed[OF p S fresh dist closed] obtain h' where
    a: "Decorator_append h p S = Inr (h', None)"
    and b: "lookup h' p = Some (Decorator_Pipeline (ts @ [S]))"
    and c: "next_of h' S = Some (length h)" and d: "is_identity h' (length h)"
    and e: "ts \<noteq> [] \<longrightarrow> next_of h' (last ts) = Some S"
    and f: "chain_closed h' (ts @ [S])"
    by blast
  have "\<forall>k x. Decorator_transform (Suc (Suc (length (ts @ [S]))) + k) h' p x
                      = for_steps h' (ts @ [S]) x"
    using transform_pipeline[OF b _ f] by simp
  with a b c d e f fresh dist show ?thesis by auto
qed

theorem Decorator_append_terminal_closed_witness:
  "lookup ([Decorator_IdentityTransformer, Decorator_AddTotalsRowTransformer 5,
      Decorator_IdentityTransformer, Decorator_AddTotalsRowTransformer 2, Decorator_Pipeline [1],
      Decorator_IdentityTransformer] :: nat Decorator_heap) 4 = Some (Decorator_Pipeline [1]) \<and>
   next_of ([Decorator_IdentityTransformer, Decorator_AddTotalsRowTransformer 5,
      Decorator_IdentityTransformer, Decorator_AddTotalsRowTransformer 2, Decorator_Pipeline [1],
      Decorator_IdentityTransformer] :: nat Decorator_heap) 3 \<noteq> None \<and>
   (3::nat) \<notin> set [1] \<and> distinct [1::nat] \<and>
   chain_closed ([Decorator_IdentityTransformer, Decorator_AddTotalsRowTransformer 5,
      Decorator_IdentityTransformer, Decorator_AddTotalsRowTransformer 2, Decorator_Pipeline [1],
      Decorator_IdentityTransformer] :: nat Decorator_heap) [1] \<and>
   Decorator_append ([Decorator_IdentityTransformer, Decorator_AddTotalsRowTransformer 5,
      Decorator_IdentityTransformer, Decorator_AddTotalsRowTransformer 2, Decorator_Pipeline [1],
      Decorator_IdentityTransformer] :: nat Decorator_heap) 4 3
   = Inr ([Decorator_IdentityTransformer, Decorator_AddTotalsRowTransformer 3,
      Decorator_IdentityTransformer, Decorator_AddTotalsRowTransformer 6, Decorator_Pipeline [1, 3],
      Decorator_IdentityTransformer, Decorator_IdentityTransformer], None) \<and>
   chain_closed ([Decorator_IdentityTransformer, Decorator_AddTotalsRowTransformer 3,
      Decorator_IdentityTransformer, Decorator_AddTotalsRowTransformer 6, Decorator_Pipeline [1, 3],
      Decorator_IdentityTransformer, Decorator_IdentityTransformer] :: nat Decorator_heap) [1, 3]"
proof -
  let ?h = "[Decorator_IdentityTransformer, Decorator_AddTotalsRowTransformer 5,
      Decorator_IdentityTransformer, Decorator_AddTotalsRowTransformer 2, Decorator_Pipeline [1],
      Decorator_IdentityTransformer] :: nat Decorator_heap"
  have p: "lookup ?h 4 = Some (Decorator_Pipeline [1])" by (simp add: lookup_def)
  have S: "next_of ?h 3 \<noteq> None" by (simp add: next_of_def lookup_def)
  have fresh: "(3::nat) \<notin> set [1]" by simp
  have dist: "distinct [1::nat]" by simp
  have closed: "chain_closed ?h [1]" by (simp add: next_of_def is_identity_def lookup_def)
  let ?H = "[Decorator_IdentityTransformer, Decorator_AddTotalsRowTransformer 3,
      Decorator_IdentityTransformer, Decorator_AddTotalsRowTransformer 6, Decorator_Pipeline [1, 3],
      Decorator_IdentityTransformer, Decorator_IdentityTransformer] :: nat Decorator_heap"
  from Decorator_append_terminal_closed[OF p S fresh dist closed] obtain h' where
    a: "Decorator_append ?h 4 3 = Inr (h', None)" and f: "chain_closed h' ([1] @ [3])"
    by blast
  have b: "Decorator_append ?h 4 3 = Inr (?H, None)"
    by (simp add: Decorator_append_def set_next_step_def lookup_def)
  from a b have "h' = ?H" by simp
  with f have c: "chain_closed ?H [1, 3]" by simp
  from p S fresh dist closed b c show ?thesis by blast
qed

text \<open>
  The constructor on distinct steps establishes what the amended claim assumes: the
  pipeline holds them in order, linked up to an identity.
\<close>

lemma for_transfomers_closed:
  assumes "lookup h p = Some (Decorator_Pipeline ts)" and "distinct (ts @ ss)"
    and "chain_closed h ts" and "\<forall>s\<in>set ss. next_of h s \<noteq> None"
  shows "\<exists>h'. for_transfomers h p ss = Inr h'
           \<and> lookup h' p = Some (Decorator_Pipeline (ts @ ss)) \<and> chain_closed h' (ts @ ss)"
  using assms
proof (induction ss arbitrary: h ts)
  case Nil
  then show ?case by simp
next
  case (Cons s ss)
  from Cons.prems have S: "next_of h s \<noteq> None" and fresh: "s \<notin> set ts"
    and dist: "distinct ts" by auto
  from Decorator_append_closed[OF Cons.prems(1) S fresh dist Cons.prems(3)] obtain h1 where
    a: "Decorator_append h p s = Inr (h1, None)"
    and b: "lookup h1 p = Some (Decorator_Pipeline (ts @ [s]))"
    and f: "chain_closed h1 (ts @ [s])"
    and g: "\<forall>a. a \<noteq> s \<and> a \<notin> set ts \<and> next_of h a \<noteq> None \<longrightarrow> next_of h1 a \<noteq> None"
    by blast
  have d2: "distinct ((ts @ [s]) @ ss)" using Cons.prems(2) by simp
  have st: "\<forall>s'\<in>set ss. next_of h1 s' \<noteq> None"
    using g Cons.prems(2,4) by auto
  from Cons.IH[OF b d2 f st] a show ?case by simp
qed

lemma Decorator_Pipeline_init_closed:
  assumes "distinct ss" and "\<forall>s\<in>set ss. next_of h s \<noteq> None"
  shows "\<exists>h'. Decorator_Pipeline_init h ss = Inr (h', length h)
           \<and> lookup h' (length h) = Some (Decorator_Pipeline ss) \<and> chain_closed h' ss"
proof -
  let ?h0 = "h @ [Decorator_Pipeline []]"
  have a: "lookup ?h0 (length h) = Some (Decorator_Pipeline [])" by simp
  have b: "distinct ([] @ ss)" using assms(1) by simp
  have c: "chain_closed ?h0 []" by simp
  have d: "\<forall>s\<in>set ss. next_of ?h0 s \<noteq> None"
  proof
    fix s assume "s \<in> set ss"
    with assms(2) obtain k where k: "next_of h s = Some k" by auto
    then have "s < length h" by (rule next_of_less)
    with k show "next_of ?h0 s \<noteq> None" by (simp add: next_of_def lookup_append_old)
  qed
  from for_transfomers_closed[OF a b c d] show ?thesis
    by (auto simp: Decorator_Pipeline_init_def)
qed

subsection \<open>The return value of \<^verbatim>\<open>append\<close>\<close>

lemma Decorator_append_returns_None:
  "Decorator_append h p s = Inr (h', r) \<Longrightarrow> r = None"
  by (auto simp: Decorator_append_def split: option.splits Decorator_object.splits sum.splits if_splits)

lemma Decorator_append_append_fails:
  "\<exists>e. Decorator_append_append h p s1 s2 = Inl e"
  by (auto simp: Decorator_append_append_def call_on_def split: sum.splits option.splits
      dest: Decorator_append_returns_None)

text \<open>
  Claim C7 says that \<^verbatim>\<open>append\<close> returns the pipeline in both modules. The aggregating
  pipeline does, and \<^verbatim>\<open>p.append(s1).append(s2)\<close> appends both stages. The linked-chain
  \<^verbatim>\<open>append\<close> is declared \<^verbatim>\<open>-> Pipeline\<close> and has no \<^verbatim>\<open>return\<close>: it yields
  \<^verbatim>\<open>None\<close>, and the chained call raises \<^verbatim>\<open>AttributeError\<close>.
\<close>

theorem Decorator_append_breaks_chaining:
  "Decorator_append
     [Decorator_IdentityTransformer, Decorator_AddTotalsRowTransformer 0,
      Decorator_IdentityTransformer, Decorator_AddTotalsRowTransformer 2, Decorator_Pipeline []] 4 1
   = Inr ([Decorator_IdentityTransformer, Decorator_AddTotalsRowTransformer 5,
      Decorator_IdentityTransformer, Decorator_AddTotalsRowTransformer 2, Decorator_Pipeline [1],
      Decorator_IdentityTransformer], None) \<and>
   Decorator_append_append
     [Decorator_IdentityTransformer, Decorator_AddTotalsRowTransformer 0,
      Decorator_IdentityTransformer, Decorator_AddTotalsRowTransformer 2, Decorator_Pipeline []] 4 1 3
   = Inl AttributeError \<and>
   Composite_append_append
     [Composite_AddTotalsRowTransformer, Composite_AddTotalsRowTransformer, Composite_Pipeline []] 2 0 1
   = Inr ([Composite_AddTotalsRowTransformer, Composite_AddTotalsRowTransformer,
           Composite_Pipeline [0, 1]], Some 2)"
  by (simp add: Decorator_append_def Decorator_append_append_def Composite_append_append_def
      Composite_append_def call_on_def set_next_step_def lookup_def)

subsection \<open>The empty linked pipeline\<close>

text \<open>
  Claim C5 says that \<^verbatim>\<open>transform\<close> of a linked pipeline does not fail for any length,
  \<^verbatim>\<open>Pipeline().transform(x)\<close> in particular. \<^verbatim>\<open>Pipeline()\<close> is built, and its
  \<^verbatim>\<open>transform\<close> raises \<^verbatim>\<open>IndexError\<close> on \<^verbatim>\<open>self.transformers[0]\<close>; a pipeline of
  one stage returns its input through the stage and the identity.
\<close>

theorem Decorator_empty_pipeline_transform_fails:
  "Decorator_Pipeline_init [] [] = Inr ([Decorator_Pipeline []], 0) \<and>
   Decorator_transform (Suc depth) [Decorator_Pipeline []] 0 x = Inl IndexError \<and>
   Decorator_Pipeline_init [Decorator_IdentityTransformer, Decorator_AddTotalsRowTransformer 0] [1]
     = Inr ([Decorator_IdentityTransformer, Decorator_AddTotalsRowTransformer 3,
             Decorator_Pipeline [1], Decorator_IdentityTransformer], 2) \<and>
   Decorator_transform (Suc (Suc (Suc depth)))
     [Decorator_IdentityTransformer, Decorator_AddTotalsRowTransformer 3,
      Decorator_Pipeline [1], Decorator_IdentityTransformer] 2 x = Inr x"
  by (simp add: Decorator_Pipeline_init_def Decorator_append_def set_next_step_def lookup_def)

end
